theory Spec2Isabelle
  imports Main "HOL-Library.AList"
begin

section \<open>Python text and spreadsheet cells\<close>

text \<open>
  The two extractors, \<^verbatim>\<open>parse_faq_excel\<close> (scripts/parse_excel_faq.py) and
  \<^verbatim>\<open>parse_cbre_faq\<close> (scripts/parse_excel_faq_cbre.py), walk the rows of a data frame
  read with \<^verbatim>\<open>header=None\<close> and look at columns 0, 1 and 2 only.

  A Python \<^verbatim>\<open>str\<close> is a sequence of code points. The model writes it as a
  \<^typ>\<open>string\<close> in which every \<^typ>\<open>char\<close> stands for one code point below 256
  (the Latin-1 range), and gives \<^verbatim>\<open>str.strip\<close>, \<^verbatim>\<open>str.isdigit\<close>,
  \<^verbatim>\<open>str.lower\<close> and \<^verbatim>\<open>int\<close> their meaning on that range. Text with
  code points from 256 on is outside the model, and so are floating point and date
  cells; \<^verbatim>\<open>print\<close> and the writing of the JSON file are left out.
\<close>

datatype error = KeyError | AttributeError | ValueError

datatype cell = NaN | Text string | Number int

definition notna :: "cell \<Rightarrow> bool" where
  "notna c = (c \<noteq> NaN)"

definition isspace :: "char \<Rightarrow> bool" where
  \<comment> \<open>The code points below 256 that \<^verbatim>\<open>str.strip()\<close> removes: TAB to CR, FS to US,
      SPACE, NEL and NBSP.\<close>
  "isspace c =
     (let n = (of_char c :: nat)
      in (9 \<le> n \<and> n \<le> 13) \<or> (28 \<le> n \<and> n \<le> 32) \<or> n = 133 \<or> n = 160)"

definition strip :: "string \<Rightarrow> string" where
  "strip s = rev (dropWhile isspace (rev (dropWhile isspace s)))"

definition isdecimal_char :: "char \<Rightarrow> bool" where
  \<comment> \<open>The characters \<^verbatim>\<open>0\<close> to \<^verbatim>\<open>9\<close>: the only digits below 256 that
      \<^verbatim>\<open>int\<close> reads.\<close>
  "isdecimal_char c = (let n = (of_char c :: nat) in 48 \<le> n \<and> n \<le> 57)"

definition isdigit_char :: "char \<Rightarrow> bool" where
  \<comment> \<open>\<^verbatim>\<open>str.isdigit\<close> also accepts SUPERSCRIPT TWO, THREE and ONE (178, 179, 185).\<close>
  "isdigit_char c =
     (let n = (of_char c :: nat) in (48 \<le> n \<and> n \<le> 57) \<or> n = 178 \<or> n = 179 \<or> n = 185)"

definition isdigit :: "string \<Rightarrow> bool" where
  "isdigit s = (s \<noteq> [] \<and> list_all isdigit_char s)"

definition lower_char :: "char \<Rightarrow> char" where
  "lower_char c =
     (let n = (of_char c :: nat)
      in if (65 \<le> n \<and> n \<le> 90) \<or> (192 \<le> n \<and> n \<le> 222 \<and> n \<noteq> 215)
         then char_of (n + 32) else c)"

definition lower :: "string \<Rightarrow> string" where
  "lower s = map lower_char s"

fun starts_with :: "string \<Rightarrow> string \<Rightarrow> bool" where
  "starts_with [] s = True"
| "starts_with (k # ks) [] = False"
| "starts_with (k # ks) (c # cs) = (k = c \<and> starts_with ks cs)"

fun contains :: "string \<Rightarrow> string \<Rightarrow> bool" where
  \<comment> \<open>\<^verbatim>\<open>k in s\<close> for two texts.\<close>
  "contains k [] = (k = [])"
| "contains k (c # cs) = (starts_with k (c # cs) \<or> contains k cs)"

fun digits :: "nat \<Rightarrow> string" where
  "digits n =
     (if n < 10 then [char_of (48 + n)]
      else digits (n div 10) @ [char_of (48 + n mod 10)])"

declare digits.simps [simp del]

definition str_int :: "int \<Rightarrow> string" where
  \<comment> \<open>\<^verbatim>\<open>str(i)\<close> of an integer cell. A number of a sheet is far below the 4300 digits
      from which the interpreter refuses the conversion.\<close>
  "str_int i = (if i < 0 then CHR ''-'' # digits (nat (- i)) else digits (nat i))"

definition str :: "cell \<Rightarrow> string" where
  "str c = (case c of Text s \<Rightarrow> s | Number i \<Rightarrow> str_int i | NaN \<Rightarrow> ''nan'')"

definition decimal_value :: "string \<Rightarrow> nat" where
  "decimal_value s = foldl (\<lambda>a c. 10 * a + (of_char c - 48)) 0 s"

definition isspace_int :: "char \<Rightarrow> bool" where
  \<comment> \<open>The code points below 256 that \<^verbatim>\<open>int\<close> skips around the digits: TAB to CR,
      SPACE, NEL and NBSP. FS to US (28 to 31), which \<^verbatim>\<open>str.strip()\<close> removes, are not
      among them.\<close>
  "isspace_int c =
     (let n = (of_char c :: nat) in (9 \<le> n \<and> n \<le> 13) \<or> n = 32 \<or> n = 133 \<or> n = 160)"

definition py_int :: "cell \<Rightarrow> error + int" where
  \<comment> \<open>\<^verbatim>\<open>int(x)\<close> as the extractors reach it: on a text whose stripped form passed
      \<^verbatim>\<open>isdigit\<close>. Such a text has no sign and no underscore. \<^verbatim>\<open>int\<close> skips its own
      whitespace at both ends and reads what is left when it is not empty, all decimal
      and at most 4300 characters long (the interpreter's default limit on the digits of
      a converted text); otherwise it raises ValueError.\<close>
  "py_int c =
     (case c of
        Number i \<Rightarrow> Inr i
      | Text s \<Rightarrow>
          (let t = rev (dropWhile isspace_int (rev (dropWhile isspace_int s)))
           in if t \<noteq> [] \<and> list_all isdecimal_char t \<and> length t \<le> 4300
              then Inr (int (decimal_value t))
              else Inl ValueError)
      | NaN \<Rightarrow> Inl ValueError)"

definition col :: "cell list \<Rightarrow> nat \<Rightarrow> error + cell" where
  \<comment> \<open>\<^verbatim>\<open>row[i]\<close>: a column label the frame does not have raises KeyError.\<close>
  "col row i = (if i < length row then Inr (row ! i) else Inl KeyError)"

section \<open>The extractor\<close>

record faq =
  number :: int
  question :: string
  answer :: string

record state =
  current_section :: "string option"
  faq_data :: "(string \<times> faq list) list"

text \<open>
  \<^verbatim>\<open>faq_data\<close> is a Python dict: assigning to a key that exists keeps the key's place,
  a new key goes to the end. \<^const>\<open>AList.update\<close> does the same on an association list.
\<close>

definition row_record :: "cell list \<Rightarrow> error + faq" where
  \<comment> \<open>number, question and answer of a question row (the three assignments that open
      the \<^verbatim>\<open>elif\<close> branch).\<close>
  "row_record row =
     (case col row 0 of Inl e \<Rightarrow> Inl e | Inr c0 \<Rightarrow>
      case py_int c0 of Inl e \<Rightarrow> Inl e | Inr n \<Rightarrow>
      case col row 1 of Inl e \<Rightarrow> Inl e | Inr c1 \<Rightarrow>
      case col row 2 of Inl e \<Rightarrow> Inl e | Inr c2 \<Rightarrow>
        Inr \<lparr>number = n,
             question = (if notna c1 then strip (str c1) else []),
             answer = (if notna c2 then strip (str c2) else [])\<rparr>)"

definition is_qa_row :: "cell list \<Rightarrow> error + bool" where
  \<comment> \<open>\<^verbatim>\<open>pd.notna(row[0]) and str(row[0]).strip().isdigit()\<close>\<close>
  "is_qa_row row =
     (case col row 0 of Inl e \<Rightarrow> Inl e
      | Inr c0 \<Rightarrow> Inr (notna c0 \<and> isdigit (strip (str c0))))"

definition qa_row :: "cell list \<Rightarrow> state \<Rightarrow> error + state" where
  \<comment> \<open>The \<^verbatim>\<open>elif\<close> branch, the same text in both files.
      \<^verbatim>\<open>if current_section and question\<close> is false for None and for the empty text.\<close>
  "qa_row row st =
     (case is_qa_row row of Inl e \<Rightarrow> Inl e | Inr False \<Rightarrow> Inr st | Inr True \<Rightarrow>
      case row_record row of Inl e \<Rightarrow> Inl e | Inr r \<Rightarrow>
      case current_section st of None \<Rightarrow> Inr st | Some cs \<Rightarrow>
        if cs \<noteq> [] \<and> question r \<noteq> [] then
          (case map_of (faq_data st) cs of
             None \<Rightarrow> Inl KeyError
           | Some l \<Rightarrow> Inr (st\<lparr>faq_data := AList.update cs (l @ [r]) (faq_data st)\<rparr>))
        else Inr st)"

definition loop_body ::
  "(cell \<Rightarrow> bool) \<Rightarrow> (cell \<Rightarrow> error + string) \<Rightarrow> cell list \<Rightarrow> state \<Rightarrow> error + state" where
  \<comment> \<open>The body of \<^verbatim>\<open>for idx, row in df.iterrows()\<close>. The two files differ in the test
      on \<^verbatim>\<open>row[2]\<close> and in how \<^verbatim>\<open>row[1]\<close> becomes the section name; these are the
      parameters \<open>is_header\<close> and \<open>section_of\<close>.\<close>
  "loop_body is_header section_of row st =
     (case col row 2 of Inl e \<Rightarrow> Inl e | Inr c2 \<Rightarrow>
        if is_header c2 then
          (case col row 1 of Inl e \<Rightarrow> Inl e | Inr c1 \<Rightarrow>
             if notna c1 then
               (case section_of c1 of Inl e \<Rightarrow> Inl e
                | Inr cur \<Rightarrow>
                    Inr \<lparr>current_section = Some cur,
                         faq_data = AList.update cur [] (faq_data st)\<rparr>)
             else Inr st)
        else qa_row row st)"

fun scan ::
  "(cell list \<Rightarrow> state \<Rightarrow> error + state) \<Rightarrow> cell list list \<Rightarrow> state \<Rightarrow> error + state" where
  "scan body [] st = Inr st"
| "scan body (row # rows) st =
     (case body row st of Inl e \<Rightarrow> Inl e | Inr st' \<Rightarrow> scan body rows st')"

definition initial :: state where
  "initial = \<lparr>current_section = None, faq_data = []\<rparr>"

subsection \<open>scripts/parse_excel_faq.py\<close>

definition is_header_excel :: "cell \<Rightarrow> bool" where
  \<comment> \<open>\<^verbatim>\<open>pd.notna(row[2]) and row[2] == "Answer"\<close>\<close>
  "is_header_excel c2 = (notna c2 \<and> c2 = Text ''Answer'')"

definition map_section_excel :: "string \<Rightarrow> string" where
  "map_section_excel section_name =
     (if lower section_name = ''coverage'' then ''Benefit Coverage''
      else if lower section_name = ''letter of guarantee'' then ''Letter of Guarantee (LOG)''
      else if lower section_name = ''system'' then ''Portal Matters''
      else if lower section_name \<in> set [''claims'', ''status''] then ''Claims Status''
      else section_name)"

definition section_excel :: "cell \<Rightarrow> error + string" where
  \<comment> \<open>\<^verbatim>\<open>row[1].strip()\<close>: only a text has the method.\<close>
  "section_excel c1 =
     (case c1 of Text s \<Rightarrow> Inr (map_section_excel (strip s)) | _ \<Rightarrow> Inl AttributeError)"

definition parse_faq_excel :: "cell list list \<Rightarrow> error + (string \<times> faq list) list" where
  "parse_faq_excel df =
     (case scan (loop_body is_header_excel section_excel) df initial of
        Inl e \<Rightarrow> Inl e | Inr st \<Rightarrow> Inr (faq_data st))"

subsection \<open>scripts/parse_excel_faq_cbre.py\<close>

definition is_header_cbre :: "cell \<Rightarrow> bool" where
  \<comment> \<open>\<^verbatim>\<open>pd.notna(row[2]) and str(row[2]).strip() == 'Answer'\<close>\<close>
  "is_header_cbre c2 = (notna c2 \<and> strip (str c2) = ''Answer'')"

definition map_section_cbre :: "string \<Rightarrow> string" where
  "map_section_cbre section_name =
     (if contains ''Coverage'' section_name then ''Benefit Coverage''
      else if contains ''Letter of Guarantee'' section_name then ''Letter of Guarantee (LOG)''
      else if contains ''System'' section_name then ''Portal Matters''
      else if contains ''Status'' section_name then ''Claims Status''
      else section_name)"

definition section_cbre :: "cell \<Rightarrow> error + string" where
  \<comment> \<open>\<^verbatim>\<open>str(row[1]).strip()\<close>\<close>
  "section_cbre c1 = Inr (map_section_cbre (strip (str c1)))"

definition parse_cbre_faq :: "cell list list \<Rightarrow> error + (string \<times> faq list) list" where
  "parse_cbre_faq df =
     (case scan (loop_body is_header_cbre section_cbre) df initial of
        Inl e \<Rightarrow> Inl e | Inr st \<Rightarrow> Inr (faq_data st))"

section \<open>Notions used to state the properties\<close>

text \<open>
  The header-row test in the words of the specification: column 2 is present and its
  trimmed text equals the literal \<^verbatim>\<open>Answer\<close>.
\<close>

definition spec_header_row :: "cell list \<Rightarrow> bool" where
  "spec_header_row row =
     (case col row 2 of Inl e \<Rightarrow> False | Inr c2 \<Rightarrow> notna c2 \<and> strip (str c2) = ''Answer'')"

text \<open>
  \<open>header_name is_header section_of row\<close> is the section that \<open>row\<close> opens in a scan with
  the header test \<open>is_header\<close>: the row passes the test, its column 1 is present and the
  section name is computed without error. \<open>last_header h rows\<close> is the section opened by
  the last such row of \<open>rows\<close>, so \<open>last_header h (take i rows)\<close> is the section whose
  header row most recently precedes row \<open>i\<close>. \<open>from_rows h rows s ixs recs\<close> says that
  \<open>recs\<close> are the Records of the rows \<open>ixs\<close>, in increasing row order, that each of these
  rows has \<open>s\<close> as the most recent header before it, and that every header row for \<open>s\<close>
  lies before all of them.

  The header test of \<^verbatim>\<open>parse_cbre_faq\<close> is the test of the specification, so
  \<open>header_cbre\<close> is the section a header row of the specification opens there. The test
  of \<^verbatim>\<open>parse_faq_excel\<close> is narrower (see C2), and no such notion is built from it.
\<close>

definition header_name ::
  "(cell \<Rightarrow> bool) \<Rightarrow> (cell \<Rightarrow> error + string) \<Rightarrow> cell list \<Rightarrow> string option" where
  "header_name is_header section_of row =
     (case col row 2 of Inl e \<Rightarrow> None | Inr c2 \<Rightarrow>
      case col row 1 of Inl e \<Rightarrow> None | Inr c1 \<Rightarrow>
        if is_header c2 \<and> notna c1
        then (case section_of c1 of Inl e \<Rightarrow> None | Inr cur \<Rightarrow> Some cur)
        else None)"

definition last_header :: "(cell list \<Rightarrow> string option) \<Rightarrow> cell list list \<Rightarrow> string option" where
  "last_header h rows = foldl (\<lambda>cur row. case h row of None \<Rightarrow> cur | Some n \<Rightarrow> Some n) None rows"

definition from_rows ::
  "(cell list \<Rightarrow> string option) \<Rightarrow> cell list list \<Rightarrow> string \<Rightarrow> nat list \<Rightarrow> faq list \<Rightarrow> bool" where
  "from_rows h rows s ixs recs =
     (sorted_wrt (<) ixs
      \<and> (\<forall>i \<in> set ixs. i < length rows \<and> last_header h (take i rows) = Some s
            \<and> (\<forall>j < length rows. h (rows ! j) = Some s \<longrightarrow> j < i))
      \<and> map (\<lambda>i. row_record (rows ! i)) ixs = map Inr recs)"

definition header_cbre :: "cell list \<Rightarrow> string option" where
  "header_cbre = header_name is_header_cbre section_cbre"

text \<open>
  The keyword table in the words of the specification: an ordered list of (keyword,
  canonical name) pairs, checked in priority order, falling through to the raw label.
\<close>

definition first_match ::
  "(string \<Rightarrow> string \<Rightarrow> bool) \<Rightarrow> (string \<times> string) list \<Rightarrow> string \<Rightarrow> string" where
  "first_match matches table label =
     (case find (\<lambda>kv. matches (fst kv) label) table of None \<Rightarrow> label | Some kv \<Rightarrow> snd kv)"

definition keywords_cbre :: "(string \<times> string) list" where
  "keywords_cbre =
     [(''Coverage'', ''Benefit Coverage''),
      (''Letter of Guarantee'', ''Letter of Guarantee (LOG)''),
      (''System'', ''Portal Matters''),
      (''Status'', ''Claims Status'')]"

definition keywords_excel :: "(string \<times> string) list" where
  "keywords_excel =
     [(''coverage'', ''Benefit Coverage''),
      (''letter of guarantee'', ''Letter of Guarantee (LOG)''),
      (''system'', ''Portal Matters''),
      (''claims'', ''Claims Status''),
      (''status'', ''Claims Status'')]"

definition int_reads :: "cell \<Rightarrow> bool" where
  \<comment> \<open>\<^verbatim>\<open>int(c)\<close> returns.\<close>
  "int_reads c = (case py_int c of Inl e \<Rightarrow> False | Inr n \<Rightarrow> True)"

section \<open>Digits and whitespace\<close>

lemma decimal_not_space: "isdecimal_char c \<Longrightarrow> \<not> isspace c"
  by (auto simp: isdecimal_char_def isspace_def Let_def)

lemma decimal_is_digit: "isdecimal_char c \<Longrightarrow> isdigit_char c"
  by (auto simp: isdecimal_char_def isdigit_char_def Let_def)

lemma strip_no_space: "list_all (\<lambda>c. \<not> isspace c) s \<Longrightarrow> strip s = s"
proof (cases s rule: rev_cases)
  case Nil
  then show ?thesis by (simp add: strip_def)
next
  case (snoc ys y)
  assume "list_all (\<lambda>c. \<not> isspace c) s"
  then have a: "dropWhile isspace s = s"
    by (cases s) simp_all
  assume "list_all (\<lambda>c. \<not> isspace c) s"
  then have "\<not> isspace y" using snoc by simp
  then show ?thesis using a snoc by (simp add: strip_def)
qed

lemma digits_decimal: "list_all isdecimal_char (digits n)"
proof (induction n rule: digits.induct)
  case (1 n)
  show ?case
  proof (cases "n < 10")
    case True
    then show ?thesis by (simp add: digits.simps [of n] isdecimal_char_def)
  next
    case False
    have "n mod 10 < 10" by simp
    then have "isdecimal_char (char_of (48 + n mod 10))"
      by (simp add: isdecimal_char_def Let_def)
    with False 1 show ?thesis by (simp add: digits.simps [of n])
  qed
qed

lemma digits_nonempty: "digits n \<noteq> []"
  by (simp add: digits.simps [of n])

lemma strip_digits: "strip (digits n) = digits n"
proof -
  have "list_all (\<lambda>c. \<not> isspace c) (digits n)"
    using digits_decimal [of n] by (auto simp: list_all_iff decimal_not_space)
  then show ?thesis by (rule strip_no_space)
qed

text \<open>
  An integer cell in column 0 makes a question row exactly when it is not negative;
  \<^verbatim>\<open>int\<close> returns it as it is.
\<close>

lemma number_is_question_row: "isdigit (strip (str (Number i))) \<longleftrightarrow> 0 \<le> i"
proof (cases "0 \<le> i")
  case True
  have "list_all isdigit_char (digits (nat i))"
    using digits_decimal [of "nat i"] by (auto simp: list_all_iff decimal_is_digit)
  with True show ?thesis
    by (simp add: str_def str_int_def strip_digits isdigit_def digits_nonempty)
next
  case False
  have "\<not> isspace CHR ''-''" by (simp add: isspace_def)
  moreover have "list_all (\<lambda>c. \<not> isspace c) (digits (nat (- i)))"
    using digits_decimal [of "nat (- i)"] by (auto simp: list_all_iff decimal_not_space)
  ultimately have ns: "list_all (\<lambda>c. \<not> isspace c) (CHR ''-'' # digits (nat (- i)))"
    by simp
  have "\<not> isdigit (CHR ''-'' # digits (nat (- i)))"
    by (simp add: isdigit_def isdigit_char_def)
  with False show ?thesis
    by (simp add: str_def str_int_def strip_no_space [OF ns])
qed

section \<open>The scan, row by row\<close>

lemma scan_append:
  "scan body (xs @ ys) st = (case scan body xs st of Inl e \<Rightarrow> Inl e | Inr st' \<Rightarrow> scan body ys st')"
  by (induction xs arbitrary: st) (auto split: sum.splits)

lemma scan_snoc:
  "scan body (xs @ [row]) st = (case scan body xs st of Inl e \<Rightarrow> Inl e | Inr st' \<Rightarrow> body row st')"
  by (simp add: scan_append split: sum.splits)

lemma last_header_snoc:
  "last_header h (rows @ [row]) = (case h row of None \<Rightarrow> last_header h rows | Some n \<Rightarrow> Some n)"
  unfolding last_header_def by simp

lemma loop_body_header:
  "header_name ih so row = Some n \<Longrightarrow>
   loop_body ih so row st = Inr \<lparr>current_section = Some n, faq_data = AList.update n [] (faq_data st)\<rparr>"
  by (auto simp: header_name_def loop_body_def split: sum.splits if_splits)

lemma loop_body_other:
  assumes "header_name ih so row = None" and "loop_body ih so row st = Inr st'"
  shows "st' = st \<or> (\<exists>cs l r. current_section st = Some cs \<and> cs \<noteq> [] \<and> map_of (faq_data st) cs = Some l
            \<and> row_record row = Inr r
            \<and> st' = st\<lparr>faq_data := AList.update cs (l @ [r]) (faq_data st)\<rparr>)"
  using assms
  by (auto simp: header_name_def loop_body_def qa_row_def split: sum.splits if_splits option.splits bool.splits)

lemma from_rows_empty: "from_rows h rows s [] []"
  by (simp add: from_rows_def)

lemma from_rows_keep:
  assumes "from_rows h rows s ixs recs" and "h row \<noteq> Some s"
  shows "from_rows h (rows @ [row]) s ixs recs"
proof -
  have old: "i < length rows" if "i \<in> set ixs" for i
    using assms(1) that by (simp add: from_rows_def)
  have hdr: "last_header h (take i (rows @ [row])) = Some s" if "i \<in> set ixs" for i
  proof -
    have "take i (rows @ [row]) = take i rows" using old [OF that] by simp
    moreover have "last_header h (take i rows) = Some s"
      using assms(1) that by (auto simp: from_rows_def)
    ultimately show ?thesis by simp
  qed
  have later: "j < i"
    if i: "i \<in> set ixs" and j: "j < length (rows @ [row])" and hj: "h ((rows @ [row]) ! j) = Some s"
    for i j
  proof -
    have "j \<noteq> length rows" using hj assms(2) by auto
    then have "j < length rows" using j by simp
    then show "j < i" using assms(1) i hj by (simp add: from_rows_def nth_append)
  qed
  have recs: "map (\<lambda>i. row_record ((rows @ [row]) ! i)) ixs = map Inr recs"
  proof -
    have "map (\<lambda>i. row_record ((rows @ [row]) ! i)) ixs = map (\<lambda>i. row_record (rows ! i)) ixs"
      using old by (simp add: nth_append)
    also have "\<dots> = map Inr recs" using assms(1) by (simp add: from_rows_def)
    finally show ?thesis .
  qed
  have srt: "sorted_wrt (<) ixs" using assms(1) by (simp add: from_rows_def)
  have len: "i < length (rows @ [row])" if "i \<in> set ixs" for i
    using old [OF that] by simp
  show ?thesis
    unfolding from_rows_def using srt len hdr later recs by blast
qed

lemma from_rows_snoc:
  assumes "from_rows h rows s ixs recs" and "last_header h rows = Some s"
    and "h row = None" and "row_record row = Inr r"
  shows "from_rows h (rows @ [row]) s (ixs @ [length rows]) (recs @ [r])"
proof -
  have keep: "from_rows h (rows @ [row]) s ixs recs"
    using assms(1,3) by (intro from_rows_keep) simp_all
  have old: "\<And>i. i \<in> set ixs \<Longrightarrow> i < length rows"
    using assms(1) by (simp add: from_rows_def)
  have "\<And>j. j < Suc (length rows) \<Longrightarrow> h ((rows @ [row]) ! j) = Some s \<Longrightarrow> j < length rows"
  proof -
    fix j assume j: "j < Suc (length rows)" and hj: "h ((rows @ [row]) ! j) = Some s"
    have "j \<noteq> length rows" using hj assms(3) by auto
    then show "j < length rows" using j by simp
  qed
  then show ?thesis
    using keep old assms(2,4) by (auto simp: from_rows_def sorted_wrt_append)
qed

lemma scan_snoc_Inr:
  assumes "scan body (rows @ [row]) st = Inr st'"
  obtains st0 where "scan body rows st = Inr st0" and "body row st0 = Inr st'"
  using assms by (auto simp: scan_snoc split: sum.splits)

lemma scan_current_section:
  "scan (loop_body ih so) rows initial = Inr st \<Longrightarrow>
   current_section st = last_header (header_name ih so) rows"
proof (induction rows arbitrary: st rule: rev_induct)
  case Nil
  then show ?case by (auto simp: initial_def last_header_def)
next
  case (snoc row rows)
  from snoc.prems obtain st0 where st0: "scan (loop_body ih so) rows initial = Inr st0"
    and step: "loop_body ih so row st0 = Inr st"
    by (rule scan_snoc_Inr)
  have cur0: "current_section st0 = last_header (header_name ih so) rows"
    using snoc.IH st0 by simp
  show ?case
  proof (cases "header_name ih so row")
    case None
    with step have "current_section st = current_section st0"
      by (auto dest: loop_body_other)
    with None cur0 show ?thesis by (simp add: last_header_snoc)
  next
    case (Some n)
    with step show ?thesis by (auto simp: loop_body_header last_header_snoc)
  qed
qed

lemma scan_section_open:
  "scan (loop_body ih so) rows initial = Inr st \<Longrightarrow> current_section st = Some cs \<Longrightarrow>
   \<exists>l. map_of (faq_data st) cs = Some l"
proof (induction rows arbitrary: st cs rule: rev_induct)
  case Nil
  then show ?case by (auto simp: initial_def)
next
  case (snoc row rows)
  from snoc.prems(1) obtain st0 where st0: "scan (loop_body ih so) rows initial = Inr st0"
    and step: "loop_body ih so row st0 = Inr st"
    by (rule scan_snoc_Inr)
  show ?case
  proof (cases "header_name ih so row")
    case None
    from loop_body_other [OF None step] snoc.IH [OF st0] snoc.prems(2) show ?thesis
      by (auto simp: update_conv')
  next
    case (Some n)
    with step snoc.prems(2) show ?thesis by (auto simp: loop_body_header update_conv')
  qed
qed

lemma scan_from_rows:
  "scan (loop_body ih so) rows initial = Inr st \<Longrightarrow> map_of (faq_data st) s = Some recs \<Longrightarrow>
   \<exists>ixs. from_rows (header_name ih so) rows s ixs recs"
proof (induction rows arbitrary: st s recs rule: rev_induct)
  case Nil
  then show ?case by (auto simp: initial_def)
next
  case (snoc row rows)
  let ?h = "header_name ih so"
  from snoc.prems(1) obtain st0 where st0: "scan (loop_body ih so) rows initial = Inr st0"
    and step: "loop_body ih so row st0 = Inr st"
    by (rule scan_snoc_Inr)
  have cur0: "current_section st0 = last_header ?h rows"
    using st0 by (rule scan_current_section)
  show ?case
  proof (cases "?h row")
    case (Some n)
    then have st: "faq_data st = AList.update n [] (faq_data st0)"
      using step by (auto simp: loop_body_header)
    show ?thesis
    proof (cases "s = n")
      case True
      then have "recs = []" using snoc.prems(2) st by (simp add: update_conv')
      then show ?thesis using from_rows_empty by blast
    next
      case False
      then have "map_of (faq_data st0) s = Some recs"
        using snoc.prems(2) st by (simp add: update_conv')
      then obtain ixs where "from_rows ?h rows s ixs recs"
        using snoc.IH [OF st0] by blast
      then have "from_rows ?h (rows @ [row]) s ixs recs"
        using Some False by (intro from_rows_keep) simp_all
      then show ?thesis by blast
    qed
  next
    case None
    from loop_body_other [OF None step] consider
      (same) "st = st0"
      | (app) cs l r where "current_section st0 = Some cs" "map_of (faq_data st0) cs = Some l"
          "row_record row = Inr r" "faq_data st = AList.update cs (l @ [r]) (faq_data st0)"
      by auto
    then show ?thesis
    proof cases
      case same
      then obtain ixs where "from_rows ?h rows s ixs recs"
        using snoc.IH [OF st0] snoc.prems(2) by blast
      then have "from_rows ?h (rows @ [row]) s ixs recs"
        using None by (intro from_rows_keep) simp_all
      then show ?thesis by blast
    next
      case app
      show ?thesis
      proof (cases "s = cs")
        case True
        then have recs: "recs = l @ [r]" using snoc.prems(2) app(4) by (simp add: update_conv')
        obtain ixs where "from_rows ?h rows cs ixs l"
          using snoc.IH [OF st0 app(2)] by blast
        then have "from_rows ?h (rows @ [row]) cs (ixs @ [length rows]) (l @ [r])"
          using cur0 app(1,3) None by (intro from_rows_snoc) simp_all
        then show ?thesis using True recs by blast
      next
        case False
        then have "map_of (faq_data st0) s = Some recs"
          using snoc.prems(2) app(4) by (simp add: update_conv')
        then obtain ixs where "from_rows ?h rows s ixs recs"
          using snoc.IH [OF st0] by blast
        then have "from_rows ?h (rows @ [row]) s ixs recs"
          using None by (intro from_rows_keep) simp_all
        then show ?thesis by blast
      qed
    qed
  qed
qed

subsection \<open>Header tests and keys\<close>

lemma strip_Answer: "strip ''Answer'' = ''Answer''"
  by code_simp

lemma is_header_excel_Answer: "is_header_excel c \<Longrightarrow> strip (str c) = ''Answer''"
  by (simp add: is_header_excel_def str_def strip_Answer)

lemma is_header_cbre_Answer: "is_header_cbre c \<Longrightarrow> strip (str c) = ''Answer''"
  by (simp add: is_header_cbre_def)

lemma header_cbre_spec: "header_cbre row = Some s \<Longrightarrow> spec_header_row row"
  by (auto simp: header_cbre_def header_name_def spec_header_row_def is_header_cbre_def
      split: sum.splits if_splits)

lemma spec_header_row_cbre:
  "spec_header_row (c0 # c1 # c2 # rest) \<Longrightarrow> c1 \<noteq> NaN \<Longrightarrow>
   header_cbre (c0 # c1 # c2 # rest) = Some (map_section_cbre (strip (str c1)))"
  by (simp add: header_cbre_def header_name_def spec_header_row_def is_header_cbre_def
      col_def notna_def section_cbre_def)

lemma loop_body_keeps_keys:
  assumes "loop_body ih so row st = Inr st'" and "map_of (faq_data st) s = Some l"
  shows "\<exists>l'. map_of (faq_data st') s = Some l'"
proof (cases "header_name ih so row")
  case None
  from loop_body_other [OF None assms(1)] assms(2) show ?thesis
    by (auto simp: update_conv')
next
  case (Some n)
  then have "faq_data st' = AList.update n [] (faq_data st)"
    using assms(1) by (auto simp: loop_body_header)
  then show ?thesis using assms(2) by (simp add: update_conv')
qed

lemma scan_keeps_keys:
  "scan (loop_body ih so) rows st = Inr st' \<Longrightarrow> map_of (faq_data st) s = Some l \<Longrightarrow>
   \<exists>l'. map_of (faq_data st') s = Some l'"
proof (induction rows arbitrary: st l)
  case Nil
  then show ?case by simp
next
  case (Cons row rows)
  from Cons.prems(1) obtain st1 where step: "loop_body ih so row st = Inr st1"
    and rest: "scan (loop_body ih so) rows st1 = Inr st'"
    by (auto split: sum.splits)
  from loop_body_keeps_keys [OF step Cons.prems(2)] obtain l1
    where "map_of (faq_data st1) s = Some l1" by blast
  with Cons.IH [OF rest] show ?case by blast
qed

subsection \<open>Single rows\<close>

lemma scan_prefix:
  "scan body (xs @ ys) st = Inr st' \<Longrightarrow> \<exists>st0. scan body xs st = Inr st0"
  by (auto simp: scan_append split: sum.splits)

lemma qa_row_append:
  assumes "row = c0 # c1 # c2 # rest" and "notna c0" and "isdigit (strip (str c0))"
    and "py_int c0 = Inr n" and "notna c1" and "strip (str c1) \<noteq> []"
    and "c2 = NaN \<or> strip (str c2) = []"
    and "current_section st = Some cs" and "cs \<noteq> []" and "map_of (faq_data st) cs = Some l"
  shows "qa_row row st =
         Inr (st\<lparr>faq_data := AList.update cs
                (l @ [\<lparr>number = n, question = strip (str c1), answer = []\<rparr>]) (faq_data st)\<rparr>)"
  using assms by (auto simp: qa_row_def is_qa_row_def row_record_def col_def notna_def)

lemma col_take: "i < 3 \<Longrightarrow> col (take 3 row) i = col row i"
  by (simp add: col_def)

lemma row_record_take: "row_record (take 3 row) = row_record row"
  by (simp add: row_record_def col_take cong: sum.case_cong)

lemma is_qa_row_take: "is_qa_row (take 3 row) = is_qa_row row"
  by (simp add: is_qa_row_def col_take)

lemma qa_row_take: "qa_row (take 3 row) st = qa_row row st"
  by (simp add: qa_row_def is_qa_row_take row_record_take cong: sum.case_cong bool.case_cong)

lemma loop_body_take: "loop_body ih so (take 3 row) st = loop_body ih so row st"
  by (simp add: loop_body_def qa_row_take col_take cong: sum.case_cong if_cong)

lemma scan_take: "scan (loop_body ih so) (map (take 3) rows) st = scan (loop_body ih so) rows st"
  by (induction rows arbitrary: st) (simp_all add: loop_body_take cong: sum.case_cong)

lemma map_section_cbre_table: "map_section_cbre l = first_match contains keywords_cbre l"
  by (simp add: map_section_cbre_def first_match_def keywords_cbre_def)

lemma map_section_excel_table:
  "map_section_excel l = first_match (\<lambda>k s. lower s = k) keywords_excel l"
  by (simp add: map_section_excel_def first_match_def keywords_excel_def)

section \<open>Section names\<close>

text \<open>
  C1, as the two files have it. A header row whose column 1 is a text opens the section
  found by looking the trimmed label up in an ordered keyword table, first match first,
  and falling back to the label itself. \<^verbatim>\<open>parse_cbre_faq\<close> matches a keyword when the
  label contains it, with the case as written (Coverage, Letter of Guarantee, System,
  Status); \<^verbatim>\<open>parse_faq_excel\<close> matches when the lower-cased label equals the keyword
  (coverage, letter of guarantee, system, claims, status). So \<^verbatim>\<open>Claims\<close> becomes
  \<^verbatim>\<open>Claims Status\<close> in \<^verbatim>\<open>parse_faq_excel\<close>, \<^verbatim>\<open>Portal / System\<close> becomes
  \<^verbatim>\<open>Portal Matters\<close> in \<^verbatim>\<open>parse_cbre_faq\<close>, and \<^verbatim>\<open>Miscellaneous\<close> stays as it
  is in both.
\<close>

theorem section_resolution:
  "loop_body is_header_cbre section_cbre (c0 # Text l # Text ''Answer'' # rest) st
     = Inr \<lparr>current_section = Some (first_match contains keywords_cbre (strip l)),
            faq_data = AList.update (first_match contains keywords_cbre (strip l)) [] (faq_data st)\<rparr>
   \<and> loop_body is_header_excel section_excel (c0 # Text l # Text ''Answer'' # rest) st
     = Inr \<lparr>current_section = Some (first_match (\<lambda>k s. lower s = k) keywords_excel (strip l)),
            faq_data = AList.update (first_match (\<lambda>k s. lower s = k) keywords_excel (strip l)) []
                         (faq_data st)\<rparr>
   \<and> parse_faq_excel [[NaN, Text ''Claims'', Text ''Answer'']] = Inr [(''Claims Status'', [])]
   \<and> parse_cbre_faq [[NaN, Text ''Portal / System'', Text ''Answer'']] = Inr [(''Portal Matters'', [])]
   \<and> parse_faq_excel [[NaN, Text ''Miscellaneous'', Text ''Answer'']] = Inr [(''Miscellaneous'', [])]
   \<and> parse_cbre_faq [[NaN, Text ''Miscellaneous'', Text ''Answer'']] = Inr [(''Miscellaneous'', [])]"
proof -
  have a: "loop_body is_header_cbre section_cbre (c0 # Text l # Text ''Answer'' # rest) st
     = Inr \<lparr>current_section = Some (first_match contains keywords_cbre (strip l)),
            faq_data = AList.update (first_match contains keywords_cbre (strip l)) [] (faq_data st)\<rparr>"
    by (simp add: loop_body_def col_def is_header_cbre_def notna_def str_def strip_Answer
        section_cbre_def map_section_cbre_table)
  have b: "loop_body is_header_excel section_excel (c0 # Text l # Text ''Answer'' # rest) st
     = Inr \<lparr>current_section = Some (first_match (\<lambda>k s. lower s = k) keywords_excel (strip l)),
            faq_data = AList.update (first_match (\<lambda>k s. lower s = k) keywords_excel (strip l)) []
                         (faq_data st)\<rparr>"
    by (simp add: loop_body_def col_def is_header_excel_def notna_def
        section_excel_def map_section_excel_table)
  have c: "parse_faq_excel [[NaN, Text ''Claims'', Text ''Answer'']] = Inr [(''Claims Status'', [])]"
    by code_simp
  have d: "parse_cbre_faq [[NaN, Text ''Portal / System'', Text ''Answer'']] = Inr [(''Portal Matters'', [])]"
    by code_simp
  have e: "parse_faq_excel [[NaN, Text ''Miscellaneous'', Text ''Answer'']] = Inr [(''Miscellaneous'', [])]"
    by code_simp
  have f: "parse_cbre_faq [[NaN, Text ''Miscellaneous'', Text ''Answer'']] = Inr [(''Miscellaneous'', [])]"
    by code_simp
  from a b c d e f show ?thesis by blast
qed

text \<open>
  The claim as written asks for both examples of every extractor. \<^verbatim>\<open>parse_cbre_faq\<close>
  has no keyword that \<^verbatim>\<open>Claims\<close> contains, and \<^verbatim>\<open>parse_faq_excel\<close> compares whole
  labels, so each keeps one of the two labels verbatim.
\<close>

theorem keyword_examples_differ:
  "parse_cbre_faq [[NaN, Text ''Claims'', Text ''Answer'']] = Inr [(''Claims'', [])]
   \<and> parse_faq_excel [[NaN, Text ''Portal / System'', Text ''Answer'']]
       = Inr [(''Portal / System'', [])]"
  by code_simp

section \<open>Header rows\<close>

text \<open>
  C2. A row is a header row exactly when its column 2 is present and its trimmed text is
  \<^verbatim>\<open>Answer\<close>, also when the text carries leading or trailing whitespace.
  \<^verbatim>\<open>parse_cbre_faq\<close> trims before it compares; \<^verbatim>\<open>parse_faq_excel\<close> compares the cell
  itself, so with the cell \<^verbatim>\<open>" Answer"\<close> it opens no section where
  \<^verbatim>\<open>parse_cbre_faq\<close> opens one.
\<close>

theorem padded_answer_header:
  "parse_faq_excel [[NaN, Text ''Coverage'', Text '' Answer'']] = Inr []
   \<and> parse_cbre_faq [[NaN, Text ''Coverage'', Text '' Answer'']] = Inr [(''Benefit Coverage'', [])]"
  by code_simp

lemma header_without_label:
  "ih c2 \<Longrightarrow> loop_body ih so (c0 # NaN # c2 # rest) st = Inr st"
  by (simp add: loop_body_def col_def notna_def)

text \<open>
  C10. A row whose column 2 trims to \<^verbatim>\<open>Answer\<close> and whose column 1 is absent leaves
  the state as it was and is never taken as a question row, whatever column 0 holds.
  \<^verbatim>\<open>parse_faq_excel\<close> does not trim column 2, so the row with \<^verbatim>\<open>" Answer"\<close> goes
  to the question branch; with SUPERSCRIPT TWO in column 0 that branch raises ValueError,
  where \<^verbatim>\<open>parse_cbre_faq\<close> returns the mapping unchanged.
\<close>

theorem padded_answer_row_taken_as_question:
  "parse_faq_excel [[Text [CHR 0xB2], NaN, Text '' Answer'']] = Inl ValueError
   \<and> parse_cbre_faq [[Text [CHR 0xB2], NaN, Text '' Answer'']] = Inr []"
  by code_simp

section \<open>Attribution, order and reset\<close>

text \<open>
  In \<^verbatim>\<open>parse_cbre_faq\<close>, whose header test is the one of the specification, the Records
  listed under a section \<open>s\<close> are the Records of rows \<open>ixs\<close> of the grid, in increasing
  row order, and each of these rows has a header row before it, the most recent of which
  opens \<open>s\<close>.
\<close>

lemma cbre_records_attributed:
  assumes "parse_cbre_faq df = Inr out" and "map_of out s = Some recs"
  shows "\<exists>ixs. sorted_wrt (<) ixs
           \<and> list_all (\<lambda>i. i < length df \<and> last_header header_cbre (take i df) = Some s) ixs
           \<and> map (\<lambda>i. row_record (df ! i)) ixs = map Inr recs"
proof -
  from assms(1) obtain st where st: "scan (loop_body is_header_cbre section_cbre) df initial = Inr st"
    and out: "out = faq_data st"
    by (auto simp: parse_cbre_faq_def split: sum.splits)
  from scan_from_rows [OF st] assms(2) out obtain ixs where "from_rows header_cbre df s ixs recs"
    by (auto simp: header_cbre_def)
  then have "sorted_wrt (<) ixs
           \<and> list_all (\<lambda>i. i < length df \<and> last_header header_cbre (take i df) = Some s) ixs
           \<and> map (\<lambda>i. row_record (df ! i)) ixs = map Inr recs"
    by (simp add: from_rows_def list_all_iff)
  then show ?thesis by blast
qed

text \<open>
  In \<^verbatim>\<open>parse_cbre_faq\<close>, when row \<open>j\<close> is a header row that opens \<open>s\<close>, the list of
  \<open>s\<close> is empty right after row \<open>j\<close>, and the output has the key \<open>s\<close> with Records that
  all come from rows after \<open>j\<close>.
\<close>

lemma cbre_header_resets:
  assumes "parse_cbre_faq df = Inr out" and "j < length df" and "header_cbre (df ! j) = Some s"
  shows "(\<exists>out'. parse_cbre_faq (take (Suc j) df) = Inr out' \<and> map_of out' s = Some [])
         \<and> (\<exists>recs ixs. map_of out s = Some recs
               \<and> sorted_wrt (<) ixs
               \<and> list_all (\<lambda>i. j < i \<and> i < length df) ixs
               \<and> map (\<lambda>i. row_record (df ! i)) ixs = map Inr recs)"
proof -
  let ?body = "loop_body is_header_cbre section_cbre"
  from assms(1) obtain st where st: "scan ?body df initial = Inr st" and out: "out = faq_data st"
    by (auto simp: parse_cbre_faq_def split: sum.splits)
  have tk: "take (Suc j) df = take j df @ [df ! j]"
    using assms(2) by (simp add: take_Suc_conv_app_nth)
  have "scan ?body (take (Suc j) df @ drop (Suc j) df) initial = Inr st"
    using st by simp
  then obtain st1 where st1: "scan ?body (take (Suc j) df) initial = Inr st1"
    and rest: "scan ?body (drop (Suc j) df) st1 = Inr st"
    unfolding scan_append by (auto split: sum.splits)
  from st1 obtain st0 where "?body (df ! j) st0 = Inr st1"
    unfolding tk by (rule scan_snoc_Inr)
  then have "faq_data st1 = AList.update s [] (faq_data st0)"
    using assms(3) by (auto simp: loop_body_header header_cbre_def)
  then have empty: "map_of (faq_data st1) s = Some []" by (simp add: update_conv')
  then have first: "\<exists>out'. parse_cbre_faq (take (Suc j) df) = Inr out' \<and> map_of out' s = Some []"
    using st1 by (simp add: parse_cbre_faq_def)
  from scan_keeps_keys [OF rest empty] obtain recs where recs: "map_of out s = Some recs"
    using out by blast
  from scan_from_rows [OF st] recs out obtain ixs where fr: "from_rows header_cbre df s ixs recs"
    by (auto simp: header_cbre_def)
  have "j < i" if "i \<in> set ixs" for i
    using fr that assms(2,3) by (auto simp: from_rows_def)
  then have "sorted_wrt (<) ixs
               \<and> list_all (\<lambda>i. j < i \<and> i < length df) ixs
               \<and> map (\<lambda>i. row_record (df ! i)) ixs = map Inr recs"
    using fr by (simp add: from_rows_def list_all_iff)
  then show ?thesis using first recs by blast
qed

text \<open>
  C3. Every Record of the output belongs to the section whose header row most recently
  precedes its row. \<^verbatim>\<open>parse_faq_excel\<close> does not see a header row whose column 2 is
  padded (the slip of C2): below, the row with \<^verbatim>\<open>System\<close> is a header row of the
  specification, and the question after it is still filed under
  \<^verbatim>\<open>Benefit Coverage\<close>, where \<^verbatim>\<open>parse_cbre_faq\<close> files it under
  \<^verbatim>\<open>Portal Matters\<close>.
\<close>

theorem padded_header_misattributes:
  "spec_header_row [Text ''No'', Text ''System'', Text '' Answer'']
   \<and> parse_faq_excel
        [[Text ''No'', Text ''Coverage'', Text ''Answer''],
         [Text ''No'', Text ''System'', Text '' Answer''],
         [Number 1, Text ''Q'', Text ''A'']]
       = Inr [(''Benefit Coverage'', [\<lparr>number = 1, question = ''Q'', answer = ''A''\<rparr>])]
   \<and> parse_cbre_faq
        [[Text ''No'', Text ''Coverage'', Text ''Answer''],
         [Text ''No'', Text ''System'', Text '' Answer''],
         [Number 1, Text ''Q'', Text ''A'']]
       = Inr [(''Benefit Coverage'', []),
              (''Portal Matters'', [\<lparr>number = 1, question = ''Q'', answer = ''A''\<rparr>])]"
  by code_simp

text \<open>
  C5. A header row for a name that the mapping already has resets the list of that name,
  so that after two header rows for one name only the Records after the second remain.
  \<^verbatim>\<open>parse_faq_excel\<close> does not see the second header row below, whose column 2 is
  padded (the slip of C2), and keeps the Record from before it; \<^verbatim>\<open>parse_cbre_faq\<close>
  resets the list.
\<close>

theorem padded_header_does_not_reset:
  "spec_header_row [Text ''No'', Text ''Coverage'', Text ''Answer '']
   \<and> parse_faq_excel
        [[Text ''No'', Text ''Coverage'', Text ''Answer''],
         [Number 1, Text ''Q1'', Text ''A1''],
         [Text ''No'', Text ''Coverage'', Text ''Answer ''],
         [Number 2, Text ''Q2'', Text ''A2'']]
       = Inr [(''Benefit Coverage'',
               [\<lparr>number = 1, question = ''Q1'', answer = ''A1''\<rparr>,
                \<lparr>number = 2, question = ''Q2'', answer = ''A2''\<rparr>])]
   \<and> parse_cbre_faq
        [[Text ''No'', Text ''Coverage'', Text ''Answer''],
         [Number 1, Text ''Q1'', Text ''A1''],
         [Text ''No'', Text ''Coverage'', Text ''Answer ''],
         [Number 2, Text ''Q2'', Text ''A2'']]
       = Inr [(''Benefit Coverage'', [\<lparr>number = 2, question = ''Q2'', answer = ''A2''\<rparr>])]"
  by code_simp

section \<open>Question rows\<close>

text \<open>
  A row that fails both tests, and a question row that \<^verbatim>\<open>int\<close> reads and that has
  no question or no section to go to, leave the state as it is.
\<close>

lemma row_dropped:
  assumes "row = c0 # c1 # c2 # rest" and "\<not> ih c2"
    and "\<not> (notna c0 \<and> isdigit (strip (str c0)))
         \<or> (\<exists>n. py_int c0 = Inr n)
            \<and> (c1 = NaN \<or> strip (str c1) = [] \<or> current_section st = None \<or> current_section st = Some [])"
  shows "loop_body ih so row st = Inr st"
  using assms
  by (auto simp: loop_body_def qa_row_def is_qa_row_def row_record_def col_def notna_def
      split: option.splits bool.splits sum.splits)

text \<open>
  C4. Rows that match neither test, digit-led rows with a blank or absent question, and
  digit-led rows with no open section are dropped without a Record and without an error.
  The row test is \<^verbatim>\<open>str(row[0]).strip().isdigit()\<close>, which SUPERSCRIPT TWO (code point
  178) passes; \<^verbatim>\<open>int(row[0])\<close> is evaluated before the question is looked at and
  raises ValueError on it, in both extractors.
\<close>

theorem superscript_digit_row_raises:
  "parse_faq_excel [[NaN, Text ''Coverage'', Text ''Answer''], [Text [CHR 0xB2], NaN, NaN]]
     = Inl ValueError
   \<and> parse_cbre_faq [[NaN, Text ''Coverage'', Text ''Answer''], [Text [CHR 0xB2], NaN, NaN]]
     = Inl ValueError"
  by code_simp

text \<open>
  \<^verbatim>\<open>int\<close> does not skip the separators FS to US that \<^verbatim>\<open>str.strip()\<close> removes, so a
  column 0 of digits padded with one of them passes the row test and raises as well.
\<close>

lemma separator_padded_digits_raise:
  "isdigit (strip (str (Text [CHR 0x1C, CHR ''7''])))
   \<and> py_int (Text [CHR 0x1C, CHR ''7'']) = Inl ValueError
   \<and> parse_faq_excel [[Text [CHR 0x1C, CHR ''7''], Text ''Q'', Text ''A'']] = Inl ValueError"
  by code_simp

lemma append_empty_answer:
  assumes "\<And>c. ih c \<Longrightarrow> strip (str c) = ''Answer''"
    and "scan (loop_body ih so) pre initial = Inr st"
    and "current_section st = Some cs" and "cs \<noteq> []"
    and "row = c0 # c1 # c2 # rest" and "notna c0" and "isdigit (strip (str c0))"
    and "py_int c0 = Inr n" and "notna c1" and "strip (str c1) \<noteq> []"
    and "c2 = NaN \<or> strip (str c2) = []"
  shows "\<exists>l. map_of (faq_data st) cs = Some l
           \<and> scan (loop_body ih so) (pre @ [row]) initial
               = Inr (st\<lparr>faq_data := AList.update cs
                       (l @ [\<lparr>number = n, question = strip (str c1), answer = []\<rparr>])
                       (faq_data st)\<rparr>)"
proof -
  obtain l where l: "map_of (faq_data st) cs = Some l"
    using scan_section_open [OF assms(2,3)] by blast
  have "\<not> ih c2"
  proof
    assume "ih c2"
    then have a: "strip (str c2) = ''Answer''" by (rule assms(1))
    from assms(11) show False
    proof
      assume "c2 = NaN"
      then show False using a by (simp add: str_def strip_def isspace_def)
    next
      assume "strip (str c2) = []"
      then show False using a by simp
    qed
  qed
  then have "loop_body ih so row st = qa_row row st"
    using assms(5) by (simp add: loop_body_def col_def)
  also have "\<dots> = Inr (st\<lparr>faq_data := AList.update cs
                (l @ [\<lparr>number = n, question = strip (str c1), answer = []\<rparr>]) (faq_data st)\<rparr>)"
    using assms(5-11) assms(3,4) l by (rule qa_row_append)
  finally show ?thesis using assms(2) l by (simp add: scan_snoc)
qed

text \<open>
  C6, as the code has it. Let the scan of the rows \<open>pre\<close> end in a state whose current
  section has a non-empty name, and let the next row have a present column 0 whose
  trimmed text is all digits and is read by \<^verbatim>\<open>int\<close> as \<open>n\<close>, a present column 1 whose
  trimmed text is not empty, and an absent or blank column 2. Then the extractor, either
  of the two, returns on the longer grid, and its mapping is the one of \<open>pre\<close> with one
  Record more at the end of the current section: number \<open>n\<close>, the trimmed question and
  the empty answer.
\<close>

theorem empty_answer_kept:
  assumes "(parse, body) \<in> {(parse_faq_excel, loop_body is_header_excel section_excel),
                             (parse_cbre_faq, loop_body is_header_cbre section_cbre)}"
    and "scan body pre initial = Inr st" and "current_section st = Some cs" and "cs \<noteq> []"
    and "row = c0 # c1 # c2 # rest" and "notna c0" and "isdigit (strip (str c0))"
    and "py_int c0 = Inr n" and "notna c1" and "strip (str c1) \<noteq> []"
    and "c2 = NaN \<or> strip (str c2) = []"
  shows "\<exists>l. parse pre = Inr (faq_data st)
           \<and> map_of (faq_data st) cs = Some l
           \<and> parse (pre @ [row])
               = Inr (AList.update cs
                       (l @ [\<lparr>number = n, question = strip (str c1), answer = []\<rparr>])
                       (faq_data st))"
proof -
  from assms(1) consider
    (excel) "parse = parse_faq_excel" "body = loop_body is_header_excel section_excel"
    | (cbre) "parse = parse_cbre_faq" "body = loop_body is_header_cbre section_cbre"
    by auto
  then show ?thesis
  proof cases
    case excel
    have pre: "scan (loop_body is_header_excel section_excel) pre initial = Inr st"
      using assms(2) excel(2) by simp
    from append_empty_answer [of is_header_excel, OF is_header_excel_Answer pre assms(3-11)]
    obtain l where "map_of (faq_data st) cs = Some l"
      and "scan (loop_body is_header_excel section_excel) (pre @ [row]) initial
           = Inr (st\<lparr>faq_data := AList.update cs
                   (l @ [\<lparr>number = n, question = strip (str c1), answer = []\<rparr>]) (faq_data st)\<rparr>)"
      by blast
    then show ?thesis using pre excel(1) by (auto simp: parse_faq_excel_def)
  next
    case cbre
    have pre: "scan (loop_body is_header_cbre section_cbre) pre initial = Inr st"
      using assms(2) cbre(2) by simp
    from append_empty_answer [of is_header_cbre, OF is_header_cbre_Answer pre assms(3-11)]
    obtain l where "map_of (faq_data st) cs = Some l"
      and "scan (loop_body is_header_cbre section_cbre) (pre @ [row]) initial
           = Inr (st\<lparr>faq_data := AList.update cs
                   (l @ [\<lparr>number = n, question = strip (str c1), answer = []\<rparr>]) (faq_data st)\<rparr>)"
      by blast
    then show ?thesis using pre cbre(1) by (auto simp: parse_cbre_faq_def)
  qed
qed

theorem empty_answer_kept_witness:
  "\<exists>l. parse_faq_excel [[Text ''No'', Text ''Coverage'', Text ''Answer'']]
        = Inr (faq_data \<lparr>current_section = Some ''Benefit Coverage'',
                          faq_data = [(''Benefit Coverage'', [])]\<rparr>)
      \<and> map_of (faq_data \<lparr>current_section = Some ''Benefit Coverage'',
                            faq_data = [(''Benefit Coverage'', [])]\<rparr>) ''Benefit Coverage'' = Some l
      \<and> parse_faq_excel
           ([[Text ''No'', Text ''Coverage'', Text ''Answer'']] @ [[Text '' 7 '', Text ''Q?'', NaN]])
          = Inr (AList.update ''Benefit Coverage''
                  (l @ [\<lparr>number = 7, question = strip (str (Text ''Q?'')), answer = []\<rparr>])
                  (faq_data \<lparr>current_section = Some ''Benefit Coverage'',
                              faq_data = [(''Benefit Coverage'', [])]\<rparr>))"
proof -
  have v: "(parse_faq_excel, loop_body is_header_excel section_excel)
           \<in> {(parse_faq_excel, loop_body is_header_excel section_excel),
               (parse_cbre_faq, loop_body is_header_cbre section_cbre)}"
    by simp
  have p: "scan (loop_body is_header_excel section_excel)
             [[Text ''No'', Text ''Coverage'', Text ''Answer'']] initial
           = Inr \<lparr>current_section = Some ''Benefit Coverage'',
                   faq_data = [(''Benefit Coverage'', [])]\<rparr>"
    by code_simp
  have h: "current_section \<lparr>current_section = Some ''Benefit Coverage'',
                   faq_data = [(''Benefit Coverage'', [])]\<rparr> = Some ''Benefit Coverage''"
    by simp
  have ne: "''Benefit Coverage'' \<noteq> []" by simp
  have row: "[Text '' 7 '', Text ''Q?'', NaN] = Text '' 7 '' # Text ''Q?'' # NaN # []" by simp
  have c0: "notna (Text '' 7 '')" by (simp add: notna_def)
  have d: "isdigit (strip (str (Text '' 7 '')))" by code_simp
  have n: "py_int (Text '' 7 '') = Inr 7" by code_simp
  have c1: "notna (Text ''Q?'')" by (simp add: notna_def)
  have q: "strip (str (Text ''Q?'')) \<noteq> []" by code_simp
  have c2: "NaN = NaN \<or> strip (str NaN) = []" by simp
  show ?thesis by (rule empty_answer_kept [OF v p h ne row c0 d n c1 q c2])
qed

text \<open>
  Without the condition on the name the statement fails: a header row whose label is
  blank sets the current section to the empty name and opens it in the mapping, and
  \<^verbatim>\<open>if current_section and question\<close> then takes no Record for it.
\<close>

theorem empty_section_name_drops_record:
  "scan (loop_body is_header_excel section_excel)
     [[Text ''No'', Text '' '', Text ''Answer'']] initial
     = Inr \<lparr>current_section = Some [], faq_data = [([], [])]\<rparr>
   \<and> parse_faq_excel [[Text ''No'', Text '' '', Text ''Answer''], [Number 1, Text ''Q'', NaN]]
       = Inr [([], [])]
   \<and> parse_cbre_faq [[Text ''No'', Text '' '', Text ''Answer''], [Number 1, Text ''Q'', NaN]]
       = Inr [([], [])]"
  by code_simp

section \<open>Errors\<close>

text \<open>
  The scan returns when every row has three columns, \<^verbatim>\<open>int\<close> reads every column 0
  that passes \<^verbatim>\<open>isdigit\<close>, and the section name of every header row is computed
  without error. For \<^verbatim>\<open>parse_cbre_faq\<close> the last condition always holds.
\<close>

lemma scan_total:
  assumes "list_all (\<lambda>row. 3 \<le> length row
              \<and> (isdigit (strip (str (row ! 0))) \<longrightarrow> int_reads (row ! 0))
              \<and> (ih (row ! 2) \<longrightarrow> notna (row ! 1) \<longrightarrow> (\<exists>n. so (row ! 1) = Inr n))) df"
  shows "\<exists>st. scan (loop_body ih so) df initial = Inr st"
  using assms
proof (induction df rule: rev_induct)
  case Nil
  then show ?case by simp
next
  case (snoc row df)
  then obtain st where st: "scan (loop_body ih so) df initial = Inr st" by auto
  have len: "3 \<le> length row" using snoc.prems by simp
  have rd: "isdigit (strip (str (row ! 0))) \<Longrightarrow> int_reads (row ! 0)" using snoc.prems by simp
  have hd: "ih (row ! 2) \<Longrightarrow> notna (row ! 1) \<Longrightarrow> \<exists>n. so (row ! 1) = Inr n" using snoc.prems by simp
  have "\<exists>st'. loop_body ih so row st = Inr st'"
  proof (cases "ih (row ! 2)")
    case True
    then show ?thesis using len hd by (auto simp: loop_body_def col_def)
  next
    case False
    have "\<exists>st'. qa_row row st = Inr st'"
      using len rd scan_section_open [OF st]
      by (auto simp: qa_row_def is_qa_row_def row_record_def col_def int_reads_def
          split: sum.splits option.splits bool.splits)
    then show ?thesis using False len by (simp add: loop_body_def col_def)
  qed
  then show ?case using st by (auto simp: scan_snoc)
qed

lemma parse_cbre_faq_total:
  assumes "list_all (\<lambda>row. 3 \<le> length row
              \<and> (isdigit (strip (str (row ! 0))) \<longrightarrow> int_reads (row ! 0))) df"
  shows "\<exists>out. parse_cbre_faq df = Inr out"
proof -
  have "list_all (\<lambda>row. 3 \<le> length row
              \<and> (isdigit (strip (str (row ! 0))) \<longrightarrow> int_reads (row ! 0))
              \<and> (is_header_cbre (row ! 2) \<longrightarrow> notna (row ! 1) \<longrightarrow> (\<exists>n. section_cbre (row ! 1) = Inr n))) df"
    using assms by (simp add: list_all_iff section_cbre_def)
  from scan_total [OF this] show ?thesis by (auto simp: parse_cbre_faq_def)
qed

text \<open>
  C7. On a grid with at least three columns the extraction never raises, whatever the
  cells hold. In \<^verbatim>\<open>parse_faq_excel\<close> a header row whose column 1 holds a number
  reaches \<^verbatim>\<open>row[1].strip()\<close> and raises AttributeError; \<^verbatim>\<open>parse_cbre_faq\<close>
  converts with \<^verbatim>\<open>str\<close> first and opens the section \<^verbatim>\<open>2024\<close>.
\<close>

theorem numeric_label_raises:
  "parse_faq_excel [[NaN, Number 2024, Text ''Answer'']] = Inl AttributeError
   \<and> parse_cbre_faq [[NaN, Number 2024, Text ''Answer'']] = Inr [(''2024'', [])]"
  by code_simp

section \<open>The result is a function of the cells\<close>

text \<open>
  C9. The scan starts from the same empty state at every call and reads nothing but
  columns 0, 1 and 2 of the rows: two grids that agree on these cells give equal
  results (the same mapping, or the same error), for either extractor.
\<close>

theorem result_depends_on_cells:
  assumes "parse \<in> {parse_faq_excel, parse_cbre_faq}" and "map (take 3) df1 = map (take 3) df2"
  shows "parse df1 = parse df2"
proof -
  have eq: "scan (loop_body ih so) df1 initial = scan (loop_body ih so) df2 initial" for ih so
  proof -
    have "scan (loop_body ih so) df1 initial = scan (loop_body ih so) (map (take 3) df1) initial"
      by (simp add: scan_take)
    also have "\<dots> = scan (loop_body ih so) df2 initial"
      using assms(2) by (simp add: scan_take)
    finally show ?thesis .
  qed
  from assms(1) consider "parse = parse_faq_excel" | "parse = parse_cbre_faq" by auto
  then show ?thesis
  proof cases
    case 1
    then show ?thesis by (simp add: parse_faq_excel_def eq)
  next
    case 2
    then show ?thesis by (simp add: parse_cbre_faq_def eq)
  qed
qed

theorem result_depends_on_cells_witness:
  "parse_faq_excel [[NaN, Text ''Coverage'', Text ''Answer'', Text ''x''], [Number 1, Text ''Q'', Text ''A'', NaN]]
   = parse_faq_excel [[NaN, Text ''Coverage'', Text ''Answer'', NaN, Number 5], [Number 1, Text ''Q'', Text ''A'']]"
proof -
  have v: "parse_faq_excel \<in> {parse_faq_excel, parse_cbre_faq}" by simp
  have c: "map (take 3) [[NaN, Text ''Coverage'', Text ''Answer'', Text ''x''], [Number 1, Text ''Q'', Text ''A'', NaN]]
     = map (take 3) [[NaN, Text ''Coverage'', Text ''Answer'', NaN, Number 5], [Number 1, Text ''Q'', Text ''A'']]"
    by simp
  show ?thesis by (rule result_depends_on_cells [OF v c])
qed

end
